theory Spec2Isabelle
  imports Main
begin

section \<open>JavaScript values, errors and plain objects\<close>

text \<open>
  The values a caller can pass where the code expects a field name, or a sink can pass
  along with its \<open>finish\<close> event. Finite numbers are modelled by the integers.
\<close>

datatype number = Num int | NaN | Infinity | NegInfinity

datatype jsval =
    JUndefined
  | JNull
  | JBool bool
  | JNumber number
  | JString string
  | JArray "jsval list"
  | JObject nat

text \<open>
  Error values: the usage error thrown by \<open>req.file\<close> (it carries the offending
  argument), the \<open>TypeError\<close> of calling a member that is not a function, and an
  \<open>Error\<close> object with its \<open>code\<close> and \<open>message\<close>.
\<close>

datatype error =
    UsageError jsval
  | TypeError string
  | JsError string string

fun code :: "error \<Rightarrow> string" where
  "code (JsError c m) = c"
| "code e = ''''"

text \<open>A call either returns or throws; the state it has mutated so far is kept in both cases.\<close>

datatype 'a result = Return 'a | Throw error

text \<open>Timers made by \<open>setTimeout\<close>: pending until they fire or are cleared.\<close>

datatype timer = Pending | Fired | Cleared

fun clearTimeout :: "timer \<Rightarrow> timer" where
  "clearTimeout Pending = Cleared"
| "clearTimeout t = t"

text \<open>Decimal rendering of integers, as \<open>ToString\<close> gives it for a property key.\<close>

definition digit :: "nat \<Rightarrow> char" where
  "digit n = char_of (48 + n)"

fun show_nat :: "nat \<Rightarrow> string" where
  "show_nat n = (if n < 10 then [digit n] else show_nat (n div 10) @ [digit (n mod 10)])"

declare show_nat.simps [simp del]

definition show_int :: "int \<Rightarrow> string" where
  "show_int i = (if i < 0 then CHR ''-'' # show_nat (nat (- i)) else show_nat (nat i))"

text \<open>
  lodash's type predicates, as \<open>validFieldName\<close> and \<open>upload\<close> use them:
  \<open>_.isFinite\<close> holds of the finite numbers. (The lodash of the 2.x line also lets
  through what coerces to a finite number: numeric strings, which \<open>_.isString\<close>
  accepts anyway, and objects that convert to one.)
\<close>

fun isUndefined :: "jsval \<Rightarrow> bool" where
  "isUndefined JUndefined = True"
| "isUndefined v = False"

fun isString :: "jsval \<Rightarrow> bool" where
  "isString (JString s) = True"
| "isString v = False"

fun isFinite :: "jsval \<Rightarrow> bool" where
  "isFinite (JNumber (Num i)) = True"
| "isFinite v = False"

fun isArray :: "jsval \<Rightarrow> bool" where
  "isArray (JArray xs) = True"
| "isArray v = False"

text \<open>
  \<open>ToString\<close>, which string concatenation and property access apply to a value
  (an array joins its elements with commas, \<open>null\<close> and \<open>undefined\<close> elements
  as empty strings).
\<close>

fun join_comma :: "string list \<Rightarrow> string" where
  "join_comma [] = []"
| "join_comma [x] = x"
| "join_comma (x # y # ys) = x @ '','' @ join_comma (y # ys)"

fun toString :: "jsval \<Rightarrow> string" where
  "toString (JString s) = s"
| "toString (JNumber (Num i)) = show_int i"
| "toString (JNumber NaN) = ''NaN''"
| "toString (JNumber Infinity) = ''Infinity''"
| "toString (JNumber NegInfinity) = ''-Infinity''"
| "toString JUndefined = ''undefined''"
| "toString JNull = ''null''"
| "toString (JBool b) = (if b then ''true'' else ''false'')"
| "toString (JArray xs) =
     join_comma (map (\<lambda>x. if x = JUndefined \<or> x = JNull then [] else toString x) xs)"
| "toString (JObject a) = ''[object Object]''"

text \<open>
  An object literal \<open>{}\<close> inherits from \<open>Object.prototype\<close>: reading one of these
  keys from an object that has no own property of that name yields the inherited
  member, which is truthy.
\<close>

definition Object_prototype_keys :: "string list" where
  "Object_prototype_keys =
     [''constructor'', ''toString'', ''toLocaleString'', ''valueOf'', ''hasOwnProperty'',
      ''isPrototypeOf'', ''propertyIsEnumerable'', ''__proto__'', ''__defineGetter__'',
      ''__defineSetter__'', ''__lookupGetter__'', ''__lookupSetter__'']"

datatype 'a member = Own 'a | Inherited string | Absent

definition js_get :: "(string \<rightharpoonup> 'a) \<Rightarrow> string \<Rightarrow> 'a member" where
  "js_get obj k =
     (case obj k of
        Some v \<Rightarrow> Own v
      | None \<Rightarrow> if k \<in> set Object_prototype_keys then Inherited k else Absent)"

text \<open>
  Assigning a string to \<open>obj[k]\<close>: it creates or overwrites an own property, except
  for \<open>__proto__\<close>, whose inherited setter ignores a value that is not an object.
\<close>

definition js_set_string :: "(string \<rightharpoonup> string) \<Rightarrow> string \<Rightarrow> string \<Rightarrow> (string \<rightharpoonup> string)" where
  "js_set_string obj k v = (if k = ''__proto__'' then obj else obj(k \<mapsto> v))"


section \<open>The request session of \<open>index.js\<close>\<close>

text \<open>
  The stream objects \<open>req.file\<close> can return: the global \<open>req.files\<close>, an
  \<open>UploadStream\<close> made for a field, a fresh \<open>NoopStream\<close>, or a member inherited
  from \<open>Object.prototype\<close> by the \<open>_watchedFields\<close> object.
\<close>

datatype stream_obj = GlobalStream | UploadStream nat | NoopStream nat | PrototypeMember string

text \<open>
  The closure variables of \<open>streamingBodyParser\<close> and the parts of \<open>req\<close> it
  writes. \<open>watchedFields\<close> holds the own properties of \<open>req.files._watchedFields\<close>
  (key and the address of the stream) in insertion order, \<open>allocated\<close> counts the stream
  objects made so far, \<open>nextCalls\<close> lists the calls of \<open>next\<close> with their argument,
  \<open>thrown\<close> the exceptions that left a handler.

  Modelled from the spec: the classes \<open>UploadStream\<close> and \<open>NoopStream\<close> are not
  among the sources; the calls of \<open>write\<close> and \<open>end\<close> on them are recorded in
  \<open>written\<close> and \<open>ended\<close>, and a \<open>NoopStream\<close> ignores both.
\<close>

record session =
  nextFileId :: nat
  body :: "string \<rightharpoonup> string"
  watchedFields :: "(string \<times> nat) list"
  savedFieldName :: "nat \<rightharpoonup> jsval"
  allocated :: nat
  hasControl :: bool
  anyFilesDetected :: bool
  reqClosed :: bool
  maxWaitTimer :: timer
  bodyParserPending :: bool
  nextCalls :: "error option list"
  written :: "(stream_obj \<times> nat) list"
  ended :: "(stream_obj \<times> error option) list"
  warnings :: "string list"
  thrown :: "error list"

definition validFieldName :: "jsval \<Rightarrow> bool" where
  "validFieldName fieldName \<longleftrightarrow>
     \<not> isUndefined fieldName \<and>
     (isString fieldName \<or> isFinite fieldName \<or> fieldName = JNumber (Num 0))"

definition req_file :: "jsval \<Rightarrow> session \<Rightarrow> stream_obj result \<times> session" where
  "req_file fieldName s =
     (if \<not> validFieldName fieldName then (Throw (UsageError fieldName), s)
      else if reqClosed s then
        (Return (NoopStream (allocated s)), s\<lparr>allocated := Suc (allocated s)\<rparr>)
      else
        (case js_get (map_of (watchedFields s)) (toString fieldName) of
           Own a \<Rightarrow> (Return (UploadStream a), s)
         | Inherited m \<Rightarrow> (Return (PrototypeMember m), s)
         | Absent \<Rightarrow>
             (Return (UploadStream (allocated s)),
              s\<lparr>watchedFields := watchedFields s @ [(toString fieldName, allocated s)],
                savedFieldName := (savedFieldName s)(allocated s \<mapsto> fieldName),
                allocated := Suc (allocated s)\<rparr>)))"

definition passControl :: "error option \<Rightarrow> session \<Rightarrow> session" where
  "passControl err s =
     (if \<not> hasControl s then s
      else
        (case err of
           Some e \<Rightarrow> s\<lparr>hasControl := False, nextCalls := nextCalls s @ [Some e]\<rparr>
         | None \<Rightarrow>
             s\<lparr>hasControl := False,
               maxWaitTimer := clearTimeout (maxWaitTimer s),
               nextCalls := nextCalls s @ [None]\<rparr>))"

definition giveUpOnFiles :: "session \<Rightarrow> session" where
  "giveUpOnFiles s = (if \<not> anyFilesDetected s then passControl None s else s)"

definition requestComplete :: "error option \<Rightarrow> session \<Rightarrow> session" where
  "requestComplete err s =
     passControl None
       (s\<lparr>ended := ended s @ (GlobalStream, err) # map (\<lambda>(k, a). (UploadStream a, err)) (watchedFields s),
          reqClosed := True\<rparr>)"

definition receiveFirstFile :: "session \<Rightarrow> session" where
  "receiveFirstFile s = passControl None (s\<lparr>anyFilesDetected := True\<rparr>)"

text \<open>\<open>stream.write(fieldStream)\<close> on whatever \<open>req.file\<close> returned.\<close>

fun stream_write :: "stream_obj \<Rightarrow> nat \<Rightarrow> session \<Rightarrow> unit result \<times> session" where
  "stream_write (PrototypeMember m) fid s = (Throw (TypeError ''write''), s)"
| "stream_write (NoopStream a) fid s = (Return (), s)"
| "stream_write st fid s = (Return (), s\<lparr>written := written s @ [(st, fid)]\<rparr>)"

definition receiveFile :: "jsval \<Rightarrow> session \<Rightarrow> unit result \<times> session" where
  "receiveFile fieldName s =
     (let fid = nextFileId s;
          s1 = s\<lparr>nextFileId := Suc fid\<rparr>;
          s2 = s1\<lparr>written := written s1 @ [(GlobalStream, fid)]\<rparr>
      in case req_file fieldName s2 of
           (Throw e, s3) \<Rightarrow> (Throw e, s3)
         | (Return specificUploadStream, s3) \<Rightarrow>
             (case stream_write specificUploadStream fid s3 of
                (Throw e, s4) \<Rightarrow> (Throw e, s4)
              | (Return u, s4) \<Rightarrow>
                  (Return (), if \<not> anyFilesDetected s4 then receiveFirstFile s4 else s4)))"

text \<open>
  \<open>receiveFieldStream\<close>: a part is a file when its \<open>filename\<close> is truthy (present and
  not the empty string); any other part is left to the decoder, which reports it later
  through the \<open>field\<close> event.
\<close>

definition receiveFieldStream :: "jsval \<Rightarrow> string option \<Rightarrow> session \<Rightarrow> unit result \<times> session" where
  "receiveFieldStream fieldName filename s =
     (let isFile = (filename \<noteq> None \<and> filename \<noteq> Some '''')
      in if isFile then receiveFile fieldName s else (Return (), s))"

definition on_field :: "string \<Rightarrow> string \<Rightarrow> session \<Rightarrow> session" where
  "on_field fieldName val s =
     (let s1 = (if anyFilesDetected s then s\<lparr>warnings := warnings s @ [fieldName]\<rparr> else s)
      in s1\<lparr>body := js_set_string (body s1) fieldName val\<rparr>)"

text \<open>
  The state when \<open>streamingBodyParser\<close> has run to its end. For a request that is not
  multipart the body parser of Connect is started first with \<open>passControl\<close> as its
  callback, and the function goes on (there is no \<open>return\<close>). If that parser calls back
  at once (\<open>sync_cb = Some err\<close>), \<open>passControl\<close> runs while the hoisted variable
  \<open>hasControl\<close> is still \<open>undefined\<close>, so it returns at its guard.
\<close>

definition blank :: session where
  "blank = \<lparr>nextFileId = 0, body = Map.empty, watchedFields = [], savedFieldName = Map.empty,
            allocated = 0, hasControl = False, anyFilesDetected = False, reqClosed = False,
            maxWaitTimer = Pending, bodyParserPending = False, nextCalls = [],
            written = [], ended = [], warnings = [], thrown = []\<rparr>"

definition streamingBodyParser :: "bool \<Rightarrow> error option option \<Rightarrow> session" where
  "streamingBodyParser isMultipart sync_cb =
     (let s0 = (if isMultipart then blank
                else case sync_cb of
                       Some err \<Rightarrow> passControl err blank
                     | None \<Rightarrow> blank\<lparr>bodyParserPending := True\<rparr>)
      in s0\<lparr>hasControl := True\<rparr>)"

text \<open>
  What can happen afterwards, one handler at a time: the decoder reports a part, a text
  field or the end of the request, the wait timer fires, the body parser calls back, or
  later middleware calls \<open>req.file\<close>.
\<close>

datatype event =
    OnPart jsval "string option"
  | OnField string string
  | MaxWaitTimer
  | RequestComplete "error option"
  | BodyParserDone "error option"
  | CallReqFile jsval

definition uncaught :: "'a result \<times> session \<Rightarrow> session" where
  "uncaught r =
     (case r of
        (Return x, s) \<Rightarrow> s
      | (Throw e, s) \<Rightarrow> s\<lparr>thrown := thrown s @ [e]\<rparr>)"

fun step :: "session \<Rightarrow> event \<Rightarrow> session" where
  "step s (OnPart fieldName filename) = uncaught (receiveFieldStream fieldName filename s)"
| "step s (OnField fieldName val) = on_field fieldName val s"
| "step s MaxWaitTimer =
     (if maxWaitTimer s = Pending then giveUpOnFiles (s\<lparr>maxWaitTimer := Fired\<rparr>) else s)"
| "step s (RequestComplete err) = requestComplete err s"
| "step s (BodyParserDone err) =
     (if bodyParserPending s then passControl err (s\<lparr>bodyParserPending := False\<rparr>) else s)"
| "step s (CallReqFile fieldName) = uncaught (req_file fieldName s)"

definition run :: "session \<Rightarrow> event list \<Rightarrow> session" where
  "run s es = foldl step s es"

text \<open>
  The events of a request that sends the text fields \<open>kvs\<close>, in order: for each the
  decoder reports the part, then its value.
\<close>

fun text_fields :: "(string \<times> string) list \<Rightarrow> event list" where
  "text_fields [] = []"
| "text_fields ((k, v) # kvs) = OnPart (JString k) None # OnField k v # text_fields kvs"

text \<open>
  The latch of \<open>passControl\<close>: while \<open>hasControl\<close> holds \<open>next\<close> has not been
  called, and once it is given up \<open>next\<close> has been called at most once.
\<close>

definition latched :: "session \<Rightarrow> bool" where
  "latched s = (if hasControl s then nextCalls s = [] else length (nextCalls s) \<le> 1)"


section \<open>\<open>Upstream.js\<close> and \<open>Parser.acquireUpstream\<close>\<close>

subsection \<open>Objects\<close>

text \<open>
  A file stream is an event emitter owned by the decoder and shared by every Upstream
  it is written to. What matters of it here: the \<open>error\<close> listeners registered with
  \<open>once\<close> by \<open>writeFile\<close> that have not run yet, the \<open>error\<close> listeners others
  (a receiver) keep on it, the errors emitted on it so far, and whether its bytes have
  all been consumed. Emitting \<open>error\<close> on an emitter with no listener for it throws the
  error; otherwise every listener runs and the \<open>once\<close> listeners are removed.
\<close>

record filestream =
  readErrorOnce :: nat
  otherErrorListeners :: nat
  raised :: "error list"
  finished :: bool

definition fresh_filestream :: filestream where
  "fresh_filestream = \<lparr>readErrorOnce = 0, otherErrorListeners = 0, raised = [], finished = False\<rparr>"

definition filestream_emit_error :: "error \<Rightarrow> filestream \<Rightarrow> filestream option" where
  "filestream_emit_error err f =
     (if readErrorOnce f = 0 \<and> otherErrorListeners f = 0 then None
      else Some (f\<lparr>readErrorOnce := 0, raised := raised f @ [err]\<rparr>))"

datatype status = BufferingOrWriting | Cancelled

record file_entry =
  stream :: nat
  status :: status

text \<open>
  The fields of an Upstream, and of the \<open>Readable\<close> it extends: the objects pushed and
  not yet read (\<open>buffer\<close>), whether \<open>push(null)\<close> has marked the end (\<open>eof\<close>), and
  the destinations of \<open>pipe\<close>.
\<close>

record upstream =
  fieldName :: jsval
  maxTimeToWaitForFirstFile :: nat
  maxTimeToBuffer :: nat
  files :: "file_entry list"
  connectedTo :: "nat list"
  connected :: bool
  untilFirstFileTimer :: timer
  untilMaxBufferTimer :: timer
  buffer :: "nat list"
  eof :: bool
  pipes :: "nat list"

text \<open>
  A receiver (a writable stream given to \<open>upload\<close>): the callbacks whose
  \<open>allFilesUploaded\<close> and \<open>unableToUpload\<close> listeners are registered with \<open>once\<close>
  and have not run, and the \<open>error\<close> listeners of its own.
\<close>

record receiver =
  allFilesUploaded :: "nat list"
  unableToUpload :: "nat list"
  ownErrorListeners :: nat

definition fresh_receiver :: receiver where
  "fresh_receiver = \<lparr>allFilesUploaded = [], unableToUpload = [], ownErrorListeners = 0\<rparr>"

text \<open>
  The store. Upstreams, file streams and receivers are addressed by numbers. For each
  Upstream: whether the \<open>once\<close> listener of \<open>acquireUpstream\<close> is still registered
  for its \<open>error\<close> event, how many other \<open>error\<close> listeners it has, the errors
  emitted on it, and what its consumer has pulled (\<open>delivered\<close>, \<open>endSeen\<close>). Of the
  Parser: \<open>this.upstreams\<close>, \<open>_hasPassedControlToApp\<close>, the calls of
  \<open>this.next\<close> and the warnings emitted. \<open>callbacks\<close> lists the calls of the
  callbacks given to \<open>upload\<close>: the callback, \<open>err\<close> and \<open>files\<close>.
\<close>

record world =
  upstreams :: "nat \<rightharpoonup> upstream"
  nextAddress :: nat
  filestreams :: "nat \<Rightarrow> filestream"
  receivers :: "nat \<Rightarrow> receiver"
  parserListener :: "nat \<Rightarrow> bool"
  upstreamListeners :: "nat \<Rightarrow> nat"
  upstreamErrors :: "nat \<Rightarrow> error list"
  delivered :: "nat \<Rightarrow> nat list"
  endSeen :: "nat \<Rightarrow> bool"
  parserUpstreams :: "nat list"
  hasPassedControlToApp :: bool
  parserNext :: "error list"
  parserWarnings :: "string list"
  callbacks :: "(nat \<times> error option \<times> jsval option) list"
  uncaughtExceptions :: "error list"

definition empty_world :: world where
  "empty_world =
     \<lparr>upstreams = Map.empty, nextAddress = 0, filestreams = (\<lambda>a. fresh_filestream),
      receivers = (\<lambda>a. fresh_receiver), parserListener = (\<lambda>a. False),
      upstreamListeners = (\<lambda>a. 0), upstreamErrors = (\<lambda>a. []), delivered = (\<lambda>a. []),
      endSeen = (\<lambda>a. False), parserUpstreams = [], hasPassedControlToApp = False,
      parserNext = [], parserWarnings = [], callbacks = [], uncaughtExceptions = []\<rparr>"

subsection \<open>The constructor and its timers\<close>

record opts =
  opt_maxTimeToWaitForFirstFile :: "nat option"
  opt_maxTimeToBuffer :: "nat option"

definition no_opts :: opts where
  "no_opts = \<lparr>opt_maxTimeToWaitForFirstFile = None, opt_maxTimeToBuffer = None\<rparr>"

definition Upstream :: "opts \<Rightarrow> upstream" where
  "Upstream os =
     \<lparr>fieldName = JUndefined,
      maxTimeToWaitForFirstFile =
        (case opt_maxTimeToWaitForFirstFile os of None \<Rightarrow> 1500 | Some n \<Rightarrow> n),
      maxTimeToBuffer = (case opt_maxTimeToBuffer os of None \<Rightarrow> 20000 | Some n \<Rightarrow> n),
      files = [], connectedTo = [], connected = False,
      untilFirstFileTimer = Pending, untilMaxBufferTimer = Pending,
      buffer = [], eof = False, pipes = []\<rparr>"

definition new_Upstream :: "opts \<Rightarrow> world \<Rightarrow> nat \<times> world" where
  "new_Upstream os w =
     (nextAddress w,
      w\<lparr>upstreams := (upstreams w)(nextAddress w \<mapsto> Upstream os),
        nextAddress := Suc (nextAddress w)\<rparr>)"

definition firstFileTimeout :: "upstream \<Rightarrow> error" where
  "firstFileTimeout up =
     JsError ''ETIMEOUT''
       (''ETIMEOUT: An Upstream ('' @ [CHR 0x60] @ toString (fieldName up) @ [CHR 0x60] @
        '') timed out waiting for file(s). No files were sent after waiting '' @
        show_nat (maxTimeToWaitForFirstFile up) @ ''ms.'')"

definition maxBufferTimeout :: "upstream \<Rightarrow> error" where
  "maxBufferTimeout up =
     JsError ''ETIMEOUT''
       (''ETIMEOUT: An Upstream ('' @ [CHR 0x60] @ toString (fieldName up) @ [CHR 0x60] @
        '') timed out before it was plugged into a receiver. It was still unused after waiting '' @
        show_nat (maxTimeToBuffer up) @
        ''ms. You can configure this timeout by changing the '' @ [CHR 0x60] @
        ''maxTimeToBuffer'' @ [CHR 0x60] @ '' option.'')"

subsection \<open>Emitting \<open>error\<close> on an Upstream\<close>

text \<open>
  The listener \<open>acquireUpstream\<close> registers: before control has passed it calls
  \<open>this.next(err)\<close>, afterwards it emits a warning.
\<close>

definition parser_on_error :: "error \<Rightarrow> world \<Rightarrow> world" where
  "parser_on_error err w =
     (if \<not> hasPassedControlToApp w then w\<lparr>parserNext := parserNext w @ [err]\<rparr>
      else w\<lparr>parserWarnings := parserWarnings w @ [''Error in incoming multipart form upload ::'']\<rparr>)"

definition upstream_emit_error :: "nat \<Rightarrow> error \<Rightarrow> world \<Rightarrow> unit result \<times> world" where
  "upstream_emit_error u err w =
     (if \<not> parserListener w u \<and> upstreamListeners w u = 0 then (Throw err, w)
      else
        (let w1 = w\<lparr>upstreamErrors := (upstreamErrors w)(u := upstreamErrors w u @ [err])\<rparr>
         in (Return (),
             if parserListener w u
             then parser_on_error err (w1\<lparr>parserListener := (parserListener w1)(u := False)\<rparr>)
             else w1)))"

subsection \<open>The methods\<close>

definition onNewDataRequested :: "upstream \<Rightarrow> upstream" where
  "onNewDataRequested up = up\<lparr>connected := True\<rparr>"

text \<open>
  \<open>Readable.push\<close>: an object is appended to the buffer; \<open>null\<close> marks the end; an
  object pushed after the end is not buffered, and the stream emits an \<open>error\<close>.
\<close>

definition push_after_EOF :: error where
  "push_after_EOF = JsError [] ''stream.push() after EOF''"

definition writeFile :: "nat \<Rightarrow> nat \<Rightarrow> world \<Rightarrow> unit result \<times> world" where
  "writeFile u fs w =
     (case upstreams w u of
        None \<Rightarrow> (Throw (TypeError ''writeFile''), w)
      | Some up \<Rightarrow>
          (let up1 = up\<lparr>files := files up @ [\<lparr>stream = fs, status = BufferingOrWriting\<rparr>]\<rparr>;
               f = filestreams w fs;
               w1 = w\<lparr>upstreams := (upstreams w)(u \<mapsto> up1),
                      filestreams := (filestreams w)(fs := f\<lparr>readErrorOnce := Suc (readErrorOnce f)\<rparr>)\<rparr>
           in if eof up1 then upstream_emit_error u push_after_EOF w1
              else (Return (), w1\<lparr>upstreams := (upstreams w1)(u \<mapsto> up1\<lparr>buffer := buffer up1 @ [fs]\<rparr>)\<rparr>)))"

definition noMoreFiles :: "upstream \<Rightarrow> upstream" where
  "noMoreFiles up = up\<lparr>eof := True\<rparr>"

text \<open>
  The loop of \<open>fatalIncomingError\<close> over \<open>this._files\<close>: each entry is marked
  cancelled, then the error is emitted on its stream; an emit that throws ends the loop.
\<close>

fun cancel_files ::
  "error \<Rightarrow> file_entry list \<Rightarrow> (nat \<Rightarrow> filestream) \<Rightarrow>
     unit result \<times> file_entry list \<times> (nat \<Rightarrow> filestream)" where
  "cancel_files err [] fss = (Return (), [], fss)"
| "cancel_files err (file # rest) fss =
     (let file' = file\<lparr>status := Cancelled\<rparr>
      in case filestream_emit_error err (fss (stream file)) of
           None \<Rightarrow> (Throw err, file' # rest, fss)
         | Some f \<Rightarrow>
             (case cancel_files err rest (fss(stream file := f)) of
                (r, rest', fss') \<Rightarrow> (r, file' # rest', fss')))"

definition fatalIncomingError :: "nat \<Rightarrow> error \<Rightarrow> world \<Rightarrow> unit result \<times> world" where
  "fatalIncomingError u err w =
     (case upstreams w u of
        None \<Rightarrow> (Throw (TypeError ''fatalIncomingError''), w)
      | Some up \<Rightarrow>
          (let up1 = up\<lparr>untilFirstFileTimer := clearTimeout (untilFirstFileTimer up),
                        untilMaxBufferTimer := clearTimeout (untilMaxBufferTimer up)\<rparr>
           in case cancel_files err (files up1) (filestreams w) of
                (Throw e, files', fss') \<Rightarrow>
                  (Throw e, w\<lparr>upstreams := (upstreams w)(u \<mapsto> up1\<lparr>files := files'\<rparr>),
                              filestreams := fss'\<rparr>)
              | (Return x, files', fss') \<Rightarrow>
                  upstream_emit_error u err
                    (w\<lparr>upstreams := (upstreams w)(u \<mapsto> noMoreFiles (up1\<lparr>files := files'\<rparr>)),
                       filestreams := fss'\<rparr>)))"

text \<open>The callbacks of the two timers the constructor starts.\<close>

definition untilFirstFileTimer_fires :: "nat \<Rightarrow> world \<Rightarrow> unit result \<times> world" where
  "untilFirstFileTimer_fires u w =
     (case upstreams w u of
        None \<Rightarrow> (Return (), w)
      | Some up \<Rightarrow>
          (if untilFirstFileTimer up \<noteq> Pending then (Return (), w)
           else
             (let w1 = w\<lparr>upstreams := (upstreams w)(u \<mapsto> up\<lparr>untilFirstFileTimer := Fired\<rparr>)\<rparr>
              in if length (files up) = 0 then fatalIncomingError u (firstFileTimeout up) w1
                 else (Return (), w1))))"

definition untilMaxBufferTimer_fires :: "nat \<Rightarrow> world \<Rightarrow> unit result \<times> world" where
  "untilMaxBufferTimer_fires u w =
     (case upstreams w u of
        None \<Rightarrow> (Return (), w)
      | Some up \<Rightarrow>
          (if untilMaxBufferTimer up \<noteq> Pending then (Return (), w)
           else
             (let w1 = w\<lparr>upstreams := (upstreams w)(u \<mapsto> up\<lparr>untilMaxBufferTimer := Fired\<rparr>)\<rparr>
              in if length (connectedTo up) = 0 then fatalIncomingError u (maxBufferTimeout up) w1
                 else (Return (), w1))))"

text \<open>
  A pull by the consumer (\<open>read()\<close> of \<open>Readable\<close>): unless the end has been pushed
  it calls \<open>_read\<close> (\<open>onNewDataRequested\<close>); it hands over the oldest buffered object, or reports the
  end when the buffer is empty and the end has been pushed, or has nothing to return.
  (The high-water mark, which only delays calls of \<open>_read\<close>, is left out.)
\<close>

definition read :: "nat \<Rightarrow> world \<Rightarrow> world" where
  "read u w =
     (case upstreams w u of
        None \<Rightarrow> w
      | Some up \<Rightarrow>
          (let up1 = (if eof up then up else onNewDataRequested up)
           in case buffer up1 of
                x # xs \<Rightarrow>
                  w\<lparr>upstreams := (upstreams w)(u \<mapsto> up1\<lparr>buffer := xs\<rparr>),
                    delivered := (delivered w)(u := delivered w u @ [x])\<rparr>
              | [] \<Rightarrow>
                  (if eof up1 then w\<lparr>endSeen := (endSeen w)(u := True)\<rparr>
                   else w\<lparr>upstreams := (upstreams w)(u \<mapsto> up1)\<rparr>)))"

text \<open>
  \<open>upload\<close>: two \<open>once\<close> listeners on the receiver, then \<open>pipe\<close>. The receiver
  reports the end of its work with \<open>finish\<close> and a failure with \<open>error\<close>, each with
  whatever \<open>files\<close> value it supplies.
\<close>

definition upload :: "nat \<Rightarrow> nat \<Rightarrow> nat \<Rightarrow> world \<Rightarrow> unit result \<times> world" where
  "upload u rcv cb w =
     (case upstreams w u of
        None \<Rightarrow> (Throw (TypeError ''upload''), w)
      | Some up \<Rightarrow>
          (let r = receivers w rcv;
               r1 = r\<lparr>allFilesUploaded := allFilesUploaded r @ [cb],
                      unableToUpload := unableToUpload r @ [cb]\<rparr>
           in (Return (),
               w\<lparr>receivers := (receivers w)(rcv := r1),
                 upstreams := (upstreams w)(u \<mapsto> up\<lparr>pipes := pipes up @ [rcv]\<rparr>)\<rparr>)))"

definition ensure_array :: "jsval \<Rightarrow> jsval" where
  "ensure_array fls = (if isArray fls then fls else JArray [])"

definition receiver_finish :: "nat \<Rightarrow> jsval \<Rightarrow> world \<Rightarrow> world" where
  "receiver_finish rcv fls w =
     (let r = receivers w rcv
      in w\<lparr>receivers := (receivers w)(rcv := r\<lparr>allFilesUploaded := []\<rparr>),
           callbacks := callbacks w @
             map (\<lambda>cb. (cb, None, Some (ensure_array fls))) (allFilesUploaded r)\<rparr>)"

definition receiver_error :: "nat \<Rightarrow> error \<Rightarrow> jsval \<Rightarrow> world \<Rightarrow> unit result \<times> world" where
  "receiver_error rcv err fls w =
     (let r = receivers w rcv
      in if unableToUpload r = [] \<and> ownErrorListeners r = 0 then (Throw err, w)
         else (Return (),
               w\<lparr>receivers := (receivers w)(rcv := r\<lparr>unableToUpload := []\<rparr>),
                 callbacks := callbacks w @ map (\<lambda>cb. (cb, Some err, None)) (unableToUpload r)\<rparr>))"

subsection \<open>\<open>Parser.prototype.acquireUpstream\<close>\<close>

definition acquireUpstream :: "jsval \<Rightarrow> world \<Rightarrow> nat \<times> world" where
  "acquireUpstream fn w =
     (case find (\<lambda>a. case upstreams w a of None \<Rightarrow> False | Some up \<Rightarrow> fieldName up = fn)
             (parserUpstreams w) of
        Some existingStream \<Rightarrow> (existingStream, w)
      | None \<Rightarrow>
          (case new_Upstream no_opts w of
             (newUpstream, w1) \<Rightarrow>
               (newUpstream,
                w1\<lparr>upstreams := (upstreams w1)(newUpstream \<mapsto> (Upstream no_opts)\<lparr>fieldName := fn\<rparr>),
                   parserUpstreams := parserUpstreams w1 @ [newUpstream],
                   parserListener := (parserListener w1)(newUpstream := True)\<rparr>)))"

subsection \<open>Events\<close>

text \<open>
  What the producer, the timers, consumers and receivers can do to the store, one call
  at a time. An exception that leaves a call is recorded as uncaught.
\<close>

datatype uevent =
    AcquireUpstream jsval
  | WriteFile nat nat
  | NoMoreFiles nat
  | FatalIncomingError nat error
  | FirstFileTimer nat
  | MaxBufferTimer nat
  | Read nat
  | Upload nat nat nat
  | ReceiverFinish nat jsval
  | ReceiverError nat error jsval
  | ListenFileError nat
  | ListenUpstreamError nat
  | FileStreamEnd nat

definition escaped :: "unit result \<times> world \<Rightarrow> world" where
  "escaped r =
     (case r of
        (Return x, w) \<Rightarrow> w
      | (Throw e, w) \<Rightarrow> w\<lparr>uncaughtExceptions := uncaughtExceptions w @ [e]\<rparr>)"

fun ustep :: "world \<Rightarrow> uevent \<Rightarrow> world" where
  "ustep w (AcquireUpstream fn) = snd (acquireUpstream fn w)"
| "ustep w (WriteFile u fs) = escaped (writeFile u fs w)"
| "ustep w (NoMoreFiles u) =
     (case upstreams w u of
        None \<Rightarrow> w
      | Some up \<Rightarrow> w\<lparr>upstreams := (upstreams w)(u \<mapsto> noMoreFiles up)\<rparr>)"
| "ustep w (FatalIncomingError u err) = escaped (fatalIncomingError u err w)"
| "ustep w (FirstFileTimer u) = escaped (untilFirstFileTimer_fires u w)"
| "ustep w (MaxBufferTimer u) = escaped (untilMaxBufferTimer_fires u w)"
| "ustep w (Read u) = read u w"
| "ustep w (Upload u rcv cb) = escaped (upload u rcv cb w)"
| "ustep w (ReceiverFinish rcv fls) = receiver_finish rcv fls w"
| "ustep w (ReceiverError rcv err fls) = escaped (receiver_error rcv err fls w)"
| "ustep w (ListenFileError fs) =
     w\<lparr>filestreams := (filestreams w)
          (fs := (filestreams w fs)\<lparr>otherErrorListeners := Suc (otherErrorListeners (filestreams w fs))\<rparr>)\<rparr>"
| "ustep w (ListenUpstreamError u) =
     w\<lparr>upstreamListeners := (upstreamListeners w)(u := Suc (upstreamListeners w u))\<rparr>"
| "ustep w (FileStreamEnd fs) =
     w\<lparr>filestreams := (filestreams w)(fs := (filestreams w fs)\<lparr>finished := True\<rparr>)\<rparr>"

definition urun :: "world \<Rightarrow> uevent list \<Rightarrow> world" where
  "urun w es = foldl ustep w es"


subsection \<open>Observations\<close>

text \<open>
  The handles an Upstream holds for its consumer, and whether it can still take more.
  \<open>emits_or_pulls u\<close> holds of the two things a producer and a consumer do to the
  Upstream \<open>u\<close> while it is open: emit a handle, pull one. \<open>emitted\<close> lists the handles
  a sequence of events emits.
\<close>

definition pending :: "world \<Rightarrow> nat \<Rightarrow> nat list" where
  "pending w u = (case upstreams w u of None \<Rightarrow> [] | Some up \<Rightarrow> buffer up)"

definition open_upstream :: "world \<Rightarrow> nat \<Rightarrow> bool" where
  "open_upstream w u = (case upstreams w u of None \<Rightarrow> False | Some up \<Rightarrow> \<not> eof up)"

text \<open>
  Of the handles an Upstream tracks in \<open>_files\<close>: their streams and their statuses;
  whether the end has been pushed; whether one of its two timers is still pending.
\<close>

definition statuses :: "world \<Rightarrow> nat \<Rightarrow> status list" where
  "statuses w u = (case upstreams w u of None \<Rightarrow> [] | Some up \<Rightarrow> map status (files up))"

definition tracked :: "world \<Rightarrow> nat \<Rightarrow> nat list" where
  "tracked w u = (case upstreams w u of None \<Rightarrow> [] | Some up \<Rightarrow> map stream (files up))"

definition ended_upstream :: "world \<Rightarrow> nat \<Rightarrow> bool" where
  "ended_upstream w u = (case upstreams w u of None \<Rightarrow> False | Some up \<Rightarrow> eof up)"

definition armed :: "world \<Rightarrow> nat \<Rightarrow> bool" where
  "armed w u =
     (case upstreams w u of
        None \<Rightarrow> False
      | Some up \<Rightarrow> untilFirstFileTimer up = Pending \<or> untilMaxBufferTimer up = Pending)"

fun emits_or_pulls :: "nat \<Rightarrow> uevent \<Rightarrow> bool" where
  "emits_or_pulls u (WriteFile u' fs) = (u' = u)"
| "emits_or_pulls u (Read u') = (u' = u)"
| "emits_or_pulls u e = False"

fun emitted :: "uevent list \<Rightarrow> nat list" where
  "emitted [] = []"
| "emitted (WriteFile u fs # es) = fs # emitted es"
| "emitted (e # es) = emitted es"


text \<open>
  \<open>reports rcv\<close> holds of what touches the listeners \<open>upload\<close> puts on the receiver
  \<open>rcv\<close>: the receiver's own \<open>finish\<close> and \<open>error\<close>, and another \<open>upload\<close> to
  it. \<open>quiet rcv es\<close>: none of the events \<open>es\<close> does.
\<close>

fun reports :: "nat \<Rightarrow> uevent \<Rightarrow> bool" where
  "reports rcv (ReceiverFinish r fls) = (r = rcv)"
| "reports rcv (ReceiverError r err fls) = (r = rcv)"
| "reports rcv (Upload u r cb) = (r = rcv)"
| "reports rcv e = False"

fun quiet :: "nat \<Rightarrow> uevent list \<Rightarrow> bool" where
  "quiet rcv [] = True"
| "quiet rcv (e # es) = (if reports rcv e then False else quiet rcv es)"


section \<open>Properties of the request session\<close>

subsection \<open>The latch\<close>

lemma latched_cong:
  "nextCalls s' = nextCalls s \<Longrightarrow> hasControl s' = hasControl s \<Longrightarrow> latched s' = latched s"
  by (simp add: latched_def)

lemma passControl_latched: "latched s \<Longrightarrow> latched (passControl err s)"
  by (auto simp: latched_def passControl_def split: option.splits if_splits)

lemma req_file_control:
  "req_file f s = (r, s') \<Longrightarrow> nextCalls s' = nextCalls s \<and> hasControl s' = hasControl s"
  by (auto simp: req_file_def split: if_splits member.splits)

lemma stream_write_control:
  "stream_write st fid s = (r, s') \<Longrightarrow> nextCalls s' = nextCalls s \<and> hasControl s' = hasControl s"
  by (cases st) auto

lemma req_file_latched: "req_file f s = (r, s') \<Longrightarrow> latched s' = latched s"
  using req_file_control latched_cong by blast

lemma stream_write_latched: "stream_write st fid s = (r, s') \<Longrightarrow> latched s' = latched s"
  using stream_write_control latched_cong by blast

lemma receiveFile_latched:
  assumes "latched s" and "receiveFile f s = (r, s')"
  shows "latched s'"
proof -
  let ?s2 = "s\<lparr>nextFileId := Suc (nextFileId s),
                 written := written s @ [(GlobalStream, nextFileId s)]\<rparr>"
  have l2: "latched ?s2"
    using assms(1) latched_cong[of ?s2 s] by simp
  obtain r3 s3 where r3: "req_file f ?s2 = (r3, s3)"
    by fastforce
  have l3: "latched s3"
    using req_file_latched[OF r3] l2 by simp
  show ?thesis
  proof (cases r3)
    case (Throw e)
    then show ?thesis
      using assms(2) r3 l3 by (simp add: receiveFile_def Let_def)
  next
    case (Return st)
    obtain r4 s4 where r4: "stream_write st (nextFileId s) s3 = (r4, s4)"
      by fastforce
    have l4: "latched s4"
      using stream_write_latched[OF r4] l3 by simp
    have "latched (s4\<lparr>anyFilesDetected := True\<rparr>)"
      using l4 latched_cong[of "s4\<lparr>anyFilesDetected := True\<rparr>" s4] by simp
    then have l5: "latched (receiveFirstFile s4)"
      unfolding receiveFirstFile_def by (rule passControl_latched)
    show ?thesis
      using assms(2) r3 Return r4 l4 l5
      by (cases r4) (auto simp add: receiveFile_def Let_def split: if_splits)
  qed
qed

lemma step_latched:
  assumes l: "latched s"
  shows "latched (step s e)"
proof (cases e)
  case (OnPart f fn)
  obtain r s' where r: "receiveFile f s = (r, s')"
    by fastforce
  have "latched s'"
    using receiveFile_latched[OF l r] .
  then show ?thesis
    using OnPart r l by (cases r) (auto simp: uncaught_def receiveFieldStream_def Let_def latched_def)
next
  case (OnField f v)
  then show ?thesis
    using l latched_cong[of "on_field f v s" s] by (simp add: on_field_def Let_def)
next
  case MaxWaitTimer
  have "latched (s\<lparr>maxWaitTimer := Fired\<rparr>)"
    using l latched_cong[of "s\<lparr>maxWaitTimer := Fired\<rparr>" s] by simp
  then show ?thesis
    using MaxWaitTimer l by (simp add: giveUpOnFiles_def passControl_latched)
next
  case (RequestComplete err)
  let ?s1 = "s\<lparr>ended := ended s @ (GlobalStream, err) #
                  map (\<lambda>(k, a). (UploadStream a, err)) (watchedFields s),
                reqClosed := True\<rparr>"
  have "latched ?s1"
    using l latched_cong[of ?s1 s] by simp
  then show ?thesis
    using RequestComplete by (simp add: requestComplete_def passControl_latched)
next
  case (BodyParserDone err)
  have "latched (s\<lparr>bodyParserPending := False\<rparr>)"
    using l latched_cong[of "s\<lparr>bodyParserPending := False\<rparr>" s] by simp
  then show ?thesis
    using BodyParserDone l by (simp add: passControl_latched)
next
  case (CallReqFile f)
  obtain r s' where r: "req_file f s = (r, s')"
    by fastforce
  then show ?thesis
    using CallReqFile l req_file_latched[OF r] by (cases r) (auto simp: uncaught_def latched_def)
qed

lemma run_latched: "latched s \<Longrightarrow> latched (run s es)"
  unfolding run_def by (induction es arbitrary: s) (simp_all add: step_latched)

lemma start_latched: "latched (streamingBodyParser isMultipart sync_cb)"
  by (auto simp: streamingBodyParser_def latched_def blank_def passControl_def Let_def
      split: option.splits)

text \<open>
  Claim C3. Whatever the decoder, the wait timer, the body parser and later middleware
  do, in whatever order and however often, \<open>next\<close> is called at most once in a
  request: the guard of \<open>passControl\<close> lets only the first trigger through.
\<close>

theorem next_called_at_most_once:
  "length (nextCalls (run (streamingBodyParser isMultipart sync_cb) es)) \<le> 1"
  using run_latched[OF start_latched, of isMultipart sync_cb es]
  by (simp add: latched_def split: if_splits)

subsection \<open>Text fields after the first file\<close>

text \<open>
  What holds of the claim: when the first file is seen, \<open>next\<close> is called and
  \<open>req.body\<close> holds exactly the text fields sent before it. A text field that comes
  later is stored as well.
\<close>

lemma run_append: "run s (es @ es') = run (run s es) es'"
  by (simp add: run_def)

lemma text_fields_before_file:
  assumes "\<not> anyFilesDetected s"
  shows "body (run s (text_fields kvs)) = foldl (\<lambda>m (k, v). js_set_string m k v) (body s) kvs \<and>
         nextCalls (run s (text_fields kvs)) = nextCalls s \<and>
         hasControl (run s (text_fields kvs)) = hasControl s \<and>
         \<not> anyFilesDetected (run s (text_fields kvs)) \<and>
         reqClosed (run s (text_fields kvs)) = reqClosed s \<and>
         watchedFields (run s (text_fields kvs)) = watchedFields s \<and>
         warnings (run s (text_fields kvs)) = warnings s"
  using assms
proof (induction kvs arbitrary: s)
  case Nil
  then show ?case by (simp add: run_def)
next
  case (Cons kv kvs)
  obtain k v where kv: "kv = (k, v)" by (cases kv)
  let ?s1 = "step (step s (OnPart (JString k) None)) (OnField k v)"
  have s1: "?s1 = s\<lparr>body := js_set_string (body s) k v\<rparr>"
    using Cons.prems by (simp add: receiveFieldStream_def uncaught_def on_field_def Let_def)
  have "\<not> anyFilesDetected ?s1"
    using s1 Cons.prems by simp
  from Cons.IH[OF this] show ?case
    unfolding kv using s1 by (simp add: run_def)
qed

lemma first_file_passes_control:
  assumes "hasControl s" and "\<not> anyFilesDetected s" and "\<not> reqClosed s"
    and "validFieldName f" and "toString f \<notin> set Object_prototype_keys"
    and "filename \<noteq> []"
  shows "nextCalls (step s (OnPart f (Some filename))) = nextCalls s @ [None] \<and>
         body (step s (OnPart f (Some filename))) = body s \<and>
         anyFilesDetected (step s (OnPart f (Some filename)))"
  using assms
  by (auto simp: receiveFieldStream_def receiveFile_def req_file_def js_get_def uncaught_def
      receiveFirstFile_def passControl_def Let_def split: option.splits)

lemma fields_then_first_file:
  assumes "validFieldName f" and "toString f \<notin> set Object_prototype_keys" and "filename \<noteq> []"
  shows "nextCalls (run (streamingBodyParser True None) (text_fields kvs @ [OnPart f (Some filename)]))
           = [None] \<and>
         body (run (streamingBodyParser True None) (text_fields kvs @ [OnPart f (Some filename)]))
           = foldl (\<lambda>m (k, v). js_set_string m k v) Map.empty kvs"
proof -
  let ?s0 = "streamingBodyParser True None"
  let ?s1 = "run ?s0 (text_fields kvs)"
  have i: "\<not> anyFilesDetected ?s0" "hasControl ?s0" "\<not> reqClosed ?s0" "nextCalls ?s0 = []"
    "body ?s0 = Map.empty"
    by (simp_all add: streamingBodyParser_def blank_def)
  have t: "body ?s1 = foldl (\<lambda>m (k, v). js_set_string m k v) Map.empty kvs"
    "nextCalls ?s1 = []" "hasControl ?s1" "\<not> anyFilesDetected ?s1" "\<not> reqClosed ?s1"
    using text_fields_before_file[OF i(1), of kvs] i by simp_all
  have "run ?s0 (text_fields kvs @ [OnPart f (Some filename)]) = step ?s1 (OnPart f (Some filename))"
    by (simp add: run_def)
  then show ?thesis
    using first_file_passes_control[OF t(3) t(4) t(5) assms] t(1,2) by simp
qed

lemma late_field_is_stored:
  "anyFilesDetected s \<Longrightarrow> k \<noteq> ''__proto__'' \<Longrightarrow>
     body (step s (OnField k v)) k = Some v \<and> warnings (step s (OnField k v)) = warnings s @ [k]"
  by (simp add: on_field_def js_set_string_def Let_def)

text \<open>
  Claim C1, at the request: text field \<open>name\<close>, a file on \<open>avatar\<close>, then text field
  \<open>late\<close>. When the file is seen \<open>next\<close> is called and \<open>req.body\<close> has no \<open>late\<close>;
  the late field is then stored into the same \<open>req.body\<close> all the same, with the
  warning that it cannot be exposed.
\<close>

theorem late_field_changes_body:
  "body (run (streamingBodyParser True None)
      [OnPart (JString ''name'') None, OnField ''name'' ''bob'',
       OnPart (JString ''avatar'') (Some ''a.png'')]) ''late'' = None \<and>
   nextCalls (run (streamingBodyParser True None)
      [OnPart (JString ''name'') None, OnField ''name'' ''bob'',
       OnPart (JString ''avatar'') (Some ''a.png'')]) = [None] \<and>
   body (run (streamingBodyParser True None)
      [OnPart (JString ''name'') None, OnField ''name'' ''bob'',
       OnPart (JString ''avatar'') (Some ''a.png''),
       OnPart (JString ''late'') None, OnField ''late'' ''x'']) ''late'' = Some ''x'' \<and>
   warnings (run (streamingBodyParser True None)
      [OnPart (JString ''name'') None, OnField ''name'' ''bob'',
       OnPart (JString ''avatar'') (Some ''a.png''),
       OnPart (JString ''late'') None, OnField ''late'' ''x'']) = [''late'']"
  by code_simp

subsection \<open>A parse error before control has passed\<close>

lemma requestComplete_drops_error:
  "hasControl s \<Longrightarrow> nextCalls (step s (RequestComplete (Some err))) = nextCalls s @ [None]"
  by (simp add: requestComplete_def passControl_def)

text \<open>
  Claim C5, at a request whose decoder fails before any file, with the wait timer still
  pending: \<open>requestComplete\<close> calls \<open>passControl()\<close> with no argument, so \<open>next\<close> is
  called once and without the error.
\<close>

theorem parse_error_not_passed_to_next:
  "nextCalls (run (streamingBodyParser True None)
      [RequestComplete (Some (JsError ''EPARSE'' ''malformed body''))]) = [None]"
  by code_simp

subsection \<open>\<open>req.file\<close>\<close>

lemma validFieldName_iff:
  "validFieldName f \<longleftrightarrow> (\<exists>s. f = JString s) \<or> (\<exists>i. f = JNumber (Num i))"
proof (cases f)
  case (JNumber n)
  then show ?thesis by (cases n) (simp_all add: validFieldName_def)
qed (simp_all add: validFieldName_def)

lemma req_file_invalid:
  "\<not> validFieldName f \<Longrightarrow> req_file f s = (Throw (UsageError f), s)"
  by (simp add: req_file_def)

lemma req_file_closed:
  "validFieldName f \<Longrightarrow> reqClosed s \<Longrightarrow>
     fst (req_file f s) = Return (NoopStream (allocated s)) \<and>
     watchedFields (snd (req_file f s)) = watchedFields s"
  by (simp add: req_file_def)

lemma req_file_existing:
  "validFieldName f \<Longrightarrow> \<not> reqClosed s \<Longrightarrow> map_of (watchedFields s) (toString f) = Some a \<Longrightarrow>
     req_file f s = (Return (UploadStream a), s)"
  by (simp add: req_file_def js_get_def)

lemma req_file_first_reference:
  assumes "validFieldName f" and "\<not> reqClosed s"
    and "map_of (watchedFields s) (toString f) = None"
    and "toString f \<notin> set Object_prototype_keys"
  shows "fst (req_file f s) = Return (UploadStream (allocated s)) \<and>
         watchedFields (snd (req_file f s)) = watchedFields s @ [(toString f, allocated s)] \<and>
         req_file f (snd (req_file f s)) = (Return (UploadStream (allocated s)), snd (req_file f s))"
proof -
  let ?s' = "snd (req_file f s)"
  have 1: "req_file f s = (Return (UploadStream (allocated s)),
              s\<lparr>watchedFields := watchedFields s @ [(toString f, allocated s)],
                savedFieldName := (savedFieldName s)(allocated s \<mapsto> f),
                allocated := Suc (allocated s)\<rparr>)"
    using assms by (simp add: req_file_def js_get_def)
  have 2: "map_of (watchedFields ?s') (toString f) = Some (allocated s)"
    using 1 assms(3) by (simp add: map_add_Some_iff)
  have 3: "\<not> reqClosed ?s'"
    using 1 assms(2) by simp
  show ?thesis
    using 1 req_file_existing[OF assms(1) 3 2] by simp
qed

lemma req_file_prototype_key:
  assumes "\<not> reqClosed s" and "map_of (watchedFields s) k = None"
    and "k \<in> set Object_prototype_keys"
  shows "req_file (JString k) s = (Return (PrototypeMember k), s)"
  using assms by (simp add: req_file_def js_get_def validFieldName_def)

text \<open>
  Claim C8, at the field name \<open>constructor\<close>, which is a valid field name. The lookup
  \<open>req.files._watchedFields[fieldName]\<close> on the object literal finds the member
  inherited from \<open>Object.prototype\<close>, which is truthy: \<open>req.file\<close> makes no stream,
  registers nothing and returns that member. A file part of that name makes
  \<open>receiveFile\<close> throw at \<open>specificUploadStream.write\<close>, before \<open>next\<close> is called.
\<close>

theorem req_file_constructor:
  "validFieldName (JString ''constructor'') \<and>
   fst (req_file (JString ''constructor'') (streamingBodyParser True None))
     = Return (PrototypeMember ''constructor'') \<and>
   watchedFields (snd (req_file (JString ''constructor'') (streamingBodyParser True None))) = [] \<and>
   thrown (run (streamingBodyParser True None) [OnPart (JString ''constructor'') (Some ''a.png'')])
     = [TypeError ''write''] \<and>
   nextCalls (run (streamingBodyParser True None) [OnPart (JString ''constructor'') (Some ''a.png'')])
     = []"
  by code_simp


section \<open>Properties of the Upstream\<close>

subsection \<open>Evaluating the store\<close>

lemma code_maxBufferTimeout: "code (maxBufferTimeout up) = ''ETIMEOUT''"
  by (simp add: maxBufferTimeout_def)

lemma code_firstFileTimeout: "code (firstFileTimeout up) = ''ETIMEOUT''"
  by (simp add: firstFileTimeout_def)

lemmas world_eval =
  urun_def escaped_def acquireUpstream_def new_Upstream_def empty_world_def Upstream_def
  no_opts_def writeFile_def read_def onNewDataRequested_def noMoreFiles_def fatalIncomingError_def
  upstream_emit_error_def parser_on_error_def filestream_emit_error_def fresh_filestream_def
  untilFirstFileTimer_fires_def untilMaxBufferTimer_fires_def upload_def receiver_finish_def
  receiver_error_def fresh_receiver_def ensure_array_def Let_def
  code_maxBufferTimeout code_firstFileTimeout

subsection \<open>Handles emitted and handles pulled\<close>

lemma emitted_append: "emitted (es @ es') = emitted es @ emitted es'"
  by (induction es rule: emitted.induct) simp_all

lemma writeFile_open:
  assumes "open_upstream w u"
  shows "open_upstream (ustep w (WriteFile u fs)) u \<and>
         delivered (ustep w (WriteFile u fs)) u = delivered w u \<and>
         pending (ustep w (WriteFile u fs)) u = pending w u @ [fs]"
  using assms
  by (auto simp: open_upstream_def pending_def writeFile_def escaped_def Let_def split: option.splits)

lemma read_open:
  assumes "open_upstream w u"
  shows "open_upstream (ustep w (Read u)) u \<and>
         delivered (ustep w (Read u)) u @ pending (ustep w (Read u)) u = delivered w u @ pending w u"
  using assms
  by (auto simp: open_upstream_def pending_def read_def onNewDataRequested_def Let_def split: option.splits list.splits)

lemma step_emits_or_pulls:
  assumes "open_upstream w u" and "emits_or_pulls u e"
  shows "open_upstream (ustep w e) u \<and>
         delivered (ustep w e) u @ pending (ustep w e) u = delivered w u @ pending w u @ emitted [e]"
proof (cases e)
  case (WriteFile u' fs)
  then show ?thesis using assms writeFile_open[of w u fs] by simp
next
  case (Read u')
  then show ?thesis using assms read_open[of w u] by simp
qed (use assms in simp_all)

lemma run_emits_or_pulls:
  assumes "open_upstream w u" and "\<forall>e\<in>set es. emits_or_pulls u e"
  shows "open_upstream (urun w es) u \<and>
         delivered (urun w es) u @ pending (urun w es) u = delivered w u @ pending w u @ emitted es"
  using assms
proof (induction es arbitrary: w)
  case Nil
  then show ?case by (simp add: urun_def)
next
  case (Cons e es)
  have s: "open_upstream (ustep w e) u \<and>
         delivered (ustep w e) u @ pending (ustep w e) u = delivered w u @ pending w u @ emitted [e]"
    using step_emits_or_pulls[of w u e] Cons.prems by simp
  have "open_upstream (urun (ustep w e) es) u \<and>
         delivered (urun (ustep w e) es) u @ pending (urun (ustep w e) es) u
           = delivered (ustep w e) u @ pending (ustep w e) u @ emitted es"
    using Cons.IH[of "ustep w e"] s Cons.prems by simp
  moreover have "emitted (e # es) = emitted [e] @ emitted es"
    using emitted_append[of "[e]" es] by simp
  ultimately show ?case using s by (simp add: urun_def)
qed

lemma urun_append: "urun w (es @ es') = urun (urun w es) es'"
  by (simp add: urun_def)

lemma drain:
  assumes "upstreams w u = Some up" and "eof up"
  shows "delivered (urun w (replicate n (Read u))) u = delivered w u @ take n (buffer up) \<and>
         (length (buffer up) < n \<longrightarrow> endSeen (urun w (replicate n (Read u))) u)"
  using assms
proof (induction n arbitrary: w up)
  case 0
  then show ?case by (simp add: urun_def)
next
  case (Suc n)
  show ?case
  proof (cases "buffer up")
    case Nil
    let ?w1 = "ustep w (Read u)"
    have w1: "upstreams ?w1 u = Some up" "delivered ?w1 u = delivered w u" "endSeen ?w1 u"
      using Suc.prems Nil by (simp_all add: read_def)
    have keep: "endSeen (urun w' (replicate k (Read u))) u" if "endSeen w' u" for w' k
      using that
    proof (induction k arbitrary: w')
      case 0
      then show ?case by (simp add: urun_def)
    next
      case (Suc k)
      have "endSeen (ustep w' (Read u)) u"
        using Suc.prems by (auto simp: read_def Let_def split: option.splits list.splits)
      then show ?case using Suc.IH[of "ustep w' (Read u)"] by (simp add: urun_def)
    qed
    have "delivered (urun ?w1 (replicate n (Read u))) u = delivered ?w1 u @ take n (buffer up)"
      using Suc.IH[OF w1(1) Suc.prems(2)] by simp
    then show ?thesis
      using Nil w1 keep[of ?w1 n] by (simp add: urun_def)
  next
    case (Cons x xs)
    let ?w1 = "ustep w (Read u)"
    have w1: "upstreams ?w1 u = Some (up\<lparr>buffer := xs\<rparr>)" "delivered ?w1 u = delivered w u @ [x]"
      using Suc.prems Cons by (simp_all add: read_def)
    have "delivered (urun ?w1 (replicate n (Read u))) u
            = delivered ?w1 u @ take n (buffer (up\<lparr>buffer := xs\<rparr>)) \<and>
          (length (buffer (up\<lparr>buffer := xs\<rparr>)) < n \<longrightarrow> endSeen (urun ?w1 (replicate n (Read u))) u)"
      by (rule Suc.IH[OF w1(1)]) (use Suc.prems in simp)
    then show ?thesis
      using Cons w1(2) by (simp add: urun_def)
  qed
qed

text \<open>
  While nothing ends the Upstream. On an Upstream that is open, with nothing buffered
  and nothing delivered yet, let the producer emit handles (\<open>writeFile\<close>) and the
  consumer pull (\<open>read\<close>) in any interleaving, the first pull as late as one likes. At
  every moment the handles delivered followed by those still buffered are exactly the
  handles emitted, in order; and once the producer has called \<open>noMoreFiles\<close>, pulling
  once more than there are handles delivers exactly the emitted handles, in order, and
  then reports the end.
\<close>

lemma open_upstream_delivers_emitted:
  assumes "open_upstream w u" and "pending w u = []" and "delivered w u = []"
    and "\<forall>e\<in>set es. emits_or_pulls u e"
  shows "delivered (urun w es) u @ pending (urun w es) u = emitted es \<and>
         delivered (urun w (es @ NoMoreFiles u # replicate (Suc (length (emitted es))) (Read u))) u
           = emitted es \<and>
         endSeen (urun w (es @ NoMoreFiles u # replicate (Suc (length (emitted es))) (Read u))) u"
proof -
  have r: "open_upstream (urun w es) u \<and>
         delivered (urun w es) u @ pending (urun w es) u = emitted es"
    using run_emits_or_pulls[OF assms(1) assms(4)] assms(2) assms(3) by simp
  obtain up1 where up1: "upstreams (urun w es) u = Some up1"
    using r by (auto simp: open_upstream_def split: option.splits)
  let ?w2 = "ustep (urun w es) (NoMoreFiles u)"
  let ?n = "Suc (length (emitted es))"
  have w2: "upstreams ?w2 u = Some (noMoreFiles up1)" "delivered ?w2 u = delivered (urun w es) u"
    using up1 by simp_all
  have e2: "eof (noMoreFiles up1)"
    by (simp add: noMoreFiles_def)
  have b2: "buffer (noMoreFiles up1) = pending (urun w es) u"
    using up1 by (simp add: noMoreFiles_def pending_def)
  have len: "length (pending (urun w es) u) < ?n"
    using r by (metis length_append less_Suc_eq_le le_add2)
  have d: "delivered (urun ?w2 (replicate ?n (Read u))) u
             = delivered ?w2 u @ take ?n (buffer (noMoreFiles up1)) \<and>
           (length (buffer (noMoreFiles up1)) < ?n \<longrightarrow>
              endSeen (urun ?w2 (replicate ?n (Read u))) u)"
    by (rule drain[OF w2(1) e2])
  have split: "urun w (es @ NoMoreFiles u # replicate ?n (Read u))
                 = urun ?w2 (replicate ?n (Read u))"
    by (simp add: urun_def)
  show ?thesis
    using r d len unfolding split b2 w2(2) by simp
qed

text \<open>
  Claim C4, at an Upstream made by \<open>acquireUpstream\<close> (deadlines 1500 ms and 20000 ms),
  in the order of the clock: handle \<open>7\<close> is emitted and pulled at once; the first-file
  timer fires and finds a file; the buffer timer fires at 20000 ms and, since its
  callback tests \<open>connectedTo\<close> and not the pull, ends the Upstream with
  \<open>fatalIncomingError\<close>; handle \<open>8\<close> is emitted afterwards, which is a push after the
  end. The consumer, pulling until the end is reported, has received \<open>7\<close> alone of the
  two handles emitted.
\<close>

theorem handle_emitted_after_buffer_deadline_is_lost:
  "emitted [WriteFile 0 7, Read 0, FirstFileTimer 0, MaxBufferTimer 0, WriteFile 0 8,
            NoMoreFiles 0, Read 0, Read 0, Read 0] = [7, 8] \<and>
   delivered (urun empty_world
      [AcquireUpstream (JString ''docs''), WriteFile 0 7, Read 0]) 0 = [7] \<and>
   open_upstream (urun empty_world
      [AcquireUpstream (JString ''docs''), WriteFile 0 7, Read 0, FirstFileTimer 0]) 0 \<and>
   ended_upstream (urun empty_world
      [AcquireUpstream (JString ''docs''), WriteFile 0 7, Read 0, FirstFileTimer 0,
       MaxBufferTimer 0]) 0 \<and>
   delivered (urun empty_world
      [AcquireUpstream (JString ''docs''), WriteFile 0 7, Read 0, FirstFileTimer 0,
       MaxBufferTimer 0, WriteFile 0 8, NoMoreFiles 0, Read 0, Read 0, Read 0]) 0 = [7] \<and>
   pending (urun empty_world
      [AcquireUpstream (JString ''docs''), WriteFile 0 7, Read 0, FirstFileTimer 0,
       MaxBufferTimer 0, WriteFile 0 8, NoMoreFiles 0, Read 0, Read 0, Read 0]) 0 = [] \<and>
   endSeen (urun empty_world
      [AcquireUpstream (JString ''docs''), WriteFile 0 7, Read 0, FirstFileTimer 0,
       MaxBufferTimer 0, WriteFile 0 8, NoMoreFiles 0, Read 0, Read 0, Read 0]) 0"
  by (simp add: world_eval open_upstream_def ended_upstream_def pending_def)

subsection \<open>\<open>fatalIncomingError\<close>\<close>

lemma clearTimeout_not_Pending: "clearTimeout t \<noteq> Pending"
  by (cases t) simp_all

lemma clearTimeout_idem: "t \<noteq> Pending \<Longrightarrow> clearTimeout t = t"
  by (cases t) simp_all

lemma cancel_files_streams:
  "cancel_files err fl fss = (r, fl', fss') \<Longrightarrow> map stream fl' = map stream fl"
proof (induction fl arbitrary: fss r fl' fss')
  case Nil
  then show ?case by simp
next
  case (Cons f fl)
  then show ?case
    by (auto simp: Let_def split: option.splits prod.splits)
qed

lemma cancel_files_statuses:
  "cancel_files err fl fss = (Return x, fl', fss') \<Longrightarrow>
     map status fl' = replicate (length fl) Cancelled"
proof (induction fl arbitrary: fss fl' fss')
  case Nil
  then show ?case by simp
next
  case (Cons f fl)
  then show ?case
    by (auto simp: Let_def split: option.splits prod.splits)
qed

lemma cancel_files_raised:
  "cancel_files err fl fss = (Return x, fl', fss') \<Longrightarrow>
     raised (fss' s) = raised (fss s) @ replicate (count_list (map stream fl) s) err"
proof (induction fl arbitrary: fss fl' fss')
  case Nil
  then show ?case by simp
next
  case (Cons f fl)
  from Cons.prems obtain g rest' where
    g: "filestream_emit_error err (fss (stream f)) = Some g"
    and rest: "cancel_files err fl (fss(stream f := g)) = (Return x, rest', fss')"
    by (auto simp: Let_def split: option.splits prod.splits)
  have rg: "raised g = raised (fss (stream f)) @ [err]"
    using g by (auto simp: filestream_emit_error_def split: if_splits)
  have "raised (fss' s) = raised ((fss(stream f := g)) s) @ replicate (count_list (map stream fl) s) err"
    using Cons.IH[OF rest] .
  then show ?case
    using rg by (simp add: replicate_append_same)
qed

lemma cancel_files_cancelled:
  "\<forall>f\<in>set fl. status f = Cancelled \<Longrightarrow> fst (snd (cancel_files err fl fss)) = fl"
proof (induction fl arbitrary: fss)
  case Nil
  then show ?case by simp
next
  case (Cons f fl)
  have same: "f\<lparr>status := Cancelled\<rparr> = f"
    using Cons.prems by simp
  show ?case
  proof (cases "filestream_emit_error err (fss (stream f))")
    case None
    then show ?thesis using same by simp
  next
    case (Some g)
    have "fst (snd (cancel_files err fl (fss(stream f := g)))) = fl"
      by (rule Cons.IH) (use Cons.prems in simp)
    then show ?thesis
      using Some same by (simp add: split_beta)
  qed
qed

lemma upstream_emit_error_upstreams:
  "upstreams (snd (upstream_emit_error u err w)) = upstreams w"
  by (simp add: upstream_emit_error_def parser_on_error_def Let_def)

lemma upstream_emit_error_filestreams:
  "filestreams (snd (upstream_emit_error u err w)) = filestreams w"
  by (simp add: upstream_emit_error_def parser_on_error_def Let_def)

lemma upstream_emit_error_Return:
  "upstream_emit_error u err w = (Return x, w') \<Longrightarrow>
     upstreamErrors w' u = upstreamErrors w u @ [err]"
  by (auto simp: upstream_emit_error_def parser_on_error_def Let_def split: if_splits)

text \<open>
  When the call returns: it does so when the tracked streams are distinct, each has an
  \<open>error\<close> listener, and so has the Upstream.
\<close>

lemma cancel_files_returns:
  assumes "distinct (map stream fl)"
    and "\<forall>f\<in>set fl. 0 < readErrorOnce (fss (stream f)) \<or> 0 < otherErrorListeners (fss (stream f))"
  shows "fst (cancel_files err fl fss) = Return ()"
  using assms
proof (induction fl arbitrary: fss)
  case Nil
  then show ?case by simp
next
  case (Cons f fl)
  obtain g where g: "filestream_emit_error err (fss (stream f)) = Some g"
    using Cons.prems(2) by (auto simp: filestream_emit_error_def)
  have d: "distinct (map stream fl)" and n: "stream f \<notin> stream ` set fl"
    using Cons.prems(1) by simp_all
  have "\<forall>f'\<in>set fl. 0 < readErrorOnce ((fss(stream f := g)) (stream f'))
          \<or> 0 < otherErrorListeners ((fss(stream f := g)) (stream f'))"
  proof
    fix f' assume f': "f' \<in> set fl"
    then have "stream f' \<noteq> stream f"
      using n by (metis imageI)
    then show "0 < readErrorOnce ((fss(stream f := g)) (stream f'))
          \<or> 0 < otherErrorListeners ((fss(stream f := g)) (stream f'))"
      using Cons.prems(2) f' by simp
  qed
  then have "fst (cancel_files err fl (fss(stream f := g))) = Return ()"
    using Cons.IH[OF d] by blast
  then show ?case
    using g by (simp add: split_beta)
qed

lemma fatalIncomingError_returns:
  assumes "upstreams w u = Some up" and "distinct (map stream (files up))"
    and "\<forall>f\<in>set (files up). 0 < readErrorOnce (filestreams w (stream f))
           \<or> 0 < otherErrorListeners (filestreams w (stream f))"
    and "parserListener w u \<or> 0 < upstreamListeners w u"
  shows "fst (fatalIncomingError u err w) = Return ()"
proof -
  obtain r fl' fss' where c: "cancel_files err (files up) (filestreams w) = (r, fl', fss')"
    using prod_cases3 by blast
  have "r = Return ()"
    using cancel_files_returns[OF assms(2,3), of err] c by simp
  then show ?thesis
    using assms(1,4) c by (auto simp: fatalIncomingError_def upstream_emit_error_def Let_def)
qed

lemma fatalIncomingError_effects:
  assumes "fatalIncomingError u err w = (Return (), w')"
  shows "\<not> armed w' u \<and>
         tracked w' u = tracked w u \<and>
         statuses w' u = replicate (length (tracked w u)) Cancelled \<and>
         (\<forall>s. raised (filestreams w' s)
                = raised (filestreams w s) @ replicate (count_list (tracked w u) s) err) \<and>
         ended_upstream w' u \<and>
         pending w' u = pending w u \<and>
         upstreamErrors w' u = upstreamErrors w u @ [err]"
proof -
  obtain up where up: "upstreams w u = Some up"
    using assms by (cases "upstreams w u") (simp_all add: fatalIncomingError_def)
  let ?up1 = "up\<lparr>untilFirstFileTimer := clearTimeout (untilFirstFileTimer up),
                  untilMaxBufferTimer := clearTimeout (untilMaxBufferTimer up)\<rparr>"
  obtain r fl' fss' where c: "cancel_files err (files up) (filestreams w) = (r, fl', fss')"
    using prod_cases3 by blast
  have r: "r = Return ()"
    using assms up c by (cases r) (simp_all add: fatalIncomingError_def)
  let ?w2 = "w\<lparr>upstreams := (upstreams w)(u \<mapsto> noMoreFiles (?up1\<lparr>files := fl'\<rparr>)), filestreams := fss'\<rparr>"
  have e: "upstream_emit_error u err ?w2 = (Return (), w')"
    using assms up c r by (simp add: fatalIncomingError_def)
  have u': "upstreams w' = upstreams ?w2"
    using upstream_emit_error_upstreams[of u err ?w2] e by simp
  have f': "filestreams w' = fss'"
    using upstream_emit_error_filestreams[of u err ?w2] e by simp
  have ue: "upstreamErrors w' u = upstreamErrors w u @ [err]"
    using upstream_emit_error_Return[OF e] by simp
  have st: "map stream fl' = map stream (files up)"
    using cancel_files_streams[OF c] .
  have ss: "map status fl' = replicate (length (files up)) Cancelled"
    using cancel_files_statuses c r by blast
  have ra: "\<forall>s. raised (fss' s) = raised (filestreams w s) @ replicate (count_list (map stream (files up)) s) err"
    using cancel_files_raised c r by blast
  show ?thesis
    using up u' f' ue st ss ra
    by (simp add: armed_def tracked_def statuses_def ended_upstream_def pending_def noMoreFiles_def
        clearTimeout_not_Pending)
qed

text \<open>
  Claim C6, as the code has it. A \<open>fatalIncomingError\<close> that returns has cleared both
  timers, has marked every handle this Upstream ever tracked as cancelled, whatever had
  become of it, has raised the error on the stream of each of them (once per entry),
  has pushed the end without touching the handles still buffered, and has emitted the
  error on the Upstream.
\<close>

theorem fatalIncomingError_cancels_every_file:
  assumes "fatalIncomingError u err w = (Return (), w')"
  shows "\<not> armed w' u \<and>
         tracked w' u = tracked w u \<and>
         statuses w' u = replicate (length (tracked w u)) Cancelled \<and>
         (\<forall>s. raised (filestreams w' s)
                = raised (filestreams w s) @ replicate (count_list (tracked w u) s) err) \<and>
         ended_upstream w' u \<and>
         pending w' u = pending w u \<and>
         upstreamErrors w' u = upstreamErrors w u @ [err]"
  using assms by (rule fatalIncomingError_effects)

theorem fatalIncomingError_cancels_every_file_witness:
  "fst (fatalIncomingError 0 (JsError ''ECANCELLED'' ''request aborted'')
         (urun empty_world [AcquireUpstream (JString ''docs''), WriteFile 0 1, Read 0, WriteFile 0 2]))
     = Return () \<and>
   statuses (snd (fatalIncomingError 0 (JsError ''ECANCELLED'' ''request aborted'')
         (urun empty_world [AcquireUpstream (JString ''docs''), WriteFile 0 1, Read 0, WriteFile 0 2]))) 0
     = [Cancelled, Cancelled] \<and>
   ended_upstream (snd (fatalIncomingError 0 (JsError ''ECANCELLED'' ''request aborted'')
         (urun empty_world [AcquireUpstream (JString ''docs''), WriteFile 0 1, Read 0, WriteFile 0 2]))) 0"
proof -
  let ?e = "JsError ''ECANCELLED'' ''request aborted''"
  let ?w = "urun empty_world [AcquireUpstream (JString ''docs''), WriteFile 0 1, Read 0, WriteFile 0 2]"
  have r: "fst (fatalIncomingError 0 ?e ?w) = Return ()"
    by (simp add: world_eval)
  then have h: "fatalIncomingError 0 ?e ?w = (Return (), snd (fatalIncomingError 0 ?e ?w))"
    by (metis prod.collapse)
  have t: "tracked ?w 0 = [1, 2]"
    by (simp add: world_eval tracked_def)
  show ?thesis
    using fatalIncomingError_cancels_every_file[OF h] r t by (simp add: numeral_2_eq_2)
qed

text \<open>
  Claim C6 as stated fails. The handle \<open>1\<close> has been pulled by the consumer and its
  bytes have ended; the Upstream keeps no record of that (a handle's status is only ever
  \<open>bufferingOrWriting\<close> or \<open>cancelled\<close>), so \<open>fatalIncomingError\<close> cancels it and
  raises the error on its stream like on any other.
\<close>

theorem fatalIncomingError_cancels_delivered_handle:
  "delivered (urun empty_world
      [AcquireUpstream (JString ''docs''), WriteFile 0 1, Read 0, FileStreamEnd 1]) 0 = [1] \<and>
   finished (filestreams (urun empty_world
      [AcquireUpstream (JString ''docs''), WriteFile 0 1, Read 0, FileStreamEnd 1]) 1) \<and>
   statuses (urun empty_world
      [AcquireUpstream (JString ''docs''), WriteFile 0 1, Read 0, FileStreamEnd 1]) 0
     = [BufferingOrWriting] \<and>
   statuses (urun empty_world
      [AcquireUpstream (JString ''docs''), WriteFile 0 1, Read 0, FileStreamEnd 1,
       FatalIncomingError 0 (JsError ''ECANCELLED'' ''request aborted'')]) 0 = [Cancelled] \<and>
   raised (filestreams (urun empty_world
      [AcquireUpstream (JString ''docs''), WriteFile 0 1, Read 0, FileStreamEnd 1,
       FatalIncomingError 0 (JsError ''ECANCELLED'' ''request aborted'')]) 1)
     = [JsError ''ECANCELLED'' ''request aborted'']"
  by (simp add: world_eval statuses_def)

lemma upstream_emit_error_delivered:
  "delivered (snd (upstream_emit_error u err w)) = delivered w"
  by (simp add: upstream_emit_error_def parser_on_error_def Let_def)

lemma fatalIncomingError_settled:
  assumes up: "upstreams w u = Some up"
    and t1: "untilFirstFileTimer up \<noteq> Pending" and t2: "untilMaxBufferTimer up \<noteq> Pending"
    and c: "\<forall>f\<in>set (files up). status f = Cancelled" and e: "eof up"
  shows "upstreams (snd (fatalIncomingError u err w)) = upstreams w \<and>
         delivered (snd (fatalIncomingError u err w)) = delivered w"
proof -
  let ?up1 = "up\<lparr>untilFirstFileTimer := clearTimeout (untilFirstFileTimer up),
                  untilMaxBufferTimer := clearTimeout (untilMaxBufferTimer up)\<rparr>"
  have up1: "?up1 = up"
    using t1 t2 by (simp add: clearTimeout_idem)
  obtain r fl' fss' where cf: "cancel_files err (files up) (filestreams w) = (r, fl', fss')"
    using prod_cases3 by blast
  have fl': "fl' = files up"
    using cancel_files_cancelled[OF c, of err "filestreams w"] cf by simp
  have same: "(upstreams w)(u \<mapsto> up) = upstreams w"
    using up by (simp add: map_upd_triv)
  have nm: "noMoreFiles up = up"
    using e by (simp add: noMoreFiles_def)
  show ?thesis
  proof (cases r)
    case (Throw x)
    then show ?thesis
      using up cf fl' same up1 by (simp add: fatalIncomingError_def)
  next
    case (Return x)
    then show ?thesis
      using up cf fl' same up1 nm
      by (simp add: fatalIncomingError_def upstream_emit_error_upstreams
          upstream_emit_error_delivered)
  qed
qed

text \<open>
  Claim C7, as the code has it. After a \<open>fatalIncomingError\<close> that returned, another
  one leaves every Upstream as it is (tracked handles and statuses, timers, buffered
  handles, end flag) and delivers nothing; and when it returns it has raised its error
  once more on the stream of every tracked handle (once per entry) and once more on the
  Upstream.
\<close>

theorem repeated_fatalIncomingError:
  assumes "fatalIncomingError u err w = (Return (), w1)"
  shows "upstreams (snd (fatalIncomingError u err' w1)) = upstreams w1 \<and>
         delivered (snd (fatalIncomingError u err' w1)) = delivered w1 \<and>
         (fst (fatalIncomingError u err' w1) = Return () \<longrightarrow>
            (\<forall>s. raised (filestreams (snd (fatalIncomingError u err' w1)) s)
                   = raised (filestreams w1 s) @ replicate (count_list (tracked w1 u) s) err') \<and>
            upstreamErrors (snd (fatalIncomingError u err' w1)) u = upstreamErrors w1 u @ [err'])"
proof -
  have p: "\<not> armed w1 u" "statuses w1 u = replicate (length (tracked w u)) Cancelled"
    "ended_upstream w1 u"
    using fatalIncomingError_effects[OF assms] by simp_all
  obtain up1 where up1: "upstreams w1 u = Some up1"
    using p(3) by (cases "upstreams w1 u") (simp_all add: ended_upstream_def)
  have t: "untilFirstFileTimer up1 \<noteq> Pending" "untilMaxBufferTimer up1 \<noteq> Pending"
    using p(1) up1 by (simp_all add: armed_def)
  have "set (map status (files up1)) \<subseteq> {Cancelled}"
    using p(2) up1 set_replicate_conv_if[of "length (tracked w u)" Cancelled]
    by (simp add: statuses_def)
  then have c: "\<forall>f\<in>set (files up1). status f = Cancelled"
    by auto
  have e: "eof up1"
    using p(3) up1 by (simp add: ended_upstream_def)
  have keep: "upstreams (snd (fatalIncomingError u err' w1)) = upstreams w1 \<and>
         delivered (snd (fatalIncomingError u err' w1)) = delivered w1"
    by (rule fatalIncomingError_settled[OF up1 t c e])
  have again: "(\<forall>s. raised (filestreams (snd (fatalIncomingError u err' w1)) s)
                   = raised (filestreams w1 s) @ replicate (count_list (tracked w1 u) s) err') \<and>
            upstreamErrors (snd (fatalIncomingError u err' w1)) u = upstreamErrors w1 u @ [err']"
    if r: "fst (fatalIncomingError u err' w1) = Return ()"
  proof -
    have "fatalIncomingError u err' w1 = (Return (), snd (fatalIncomingError u err' w1))"
      using r by (metis prod.collapse)
    from fatalIncomingError_effects[OF this] show ?thesis
      by simp
  qed
  show ?thesis
    using keep again by blast
qed

theorem repeated_fatalIncomingError_witness:
  "fst (fatalIncomingError 0 (JsError ''ECANCELLED'' ''request aborted'')
         (urun empty_world [AcquireUpstream (JString ''docs''), WriteFile 0 1,
            ListenFileError 1, ListenUpstreamError 0])) = Return () \<and>
   fst (fatalIncomingError 0 (JsError ''ETIMEOUT'' ''again'')
         (snd (fatalIncomingError 0 (JsError ''ECANCELLED'' ''request aborted'')
           (urun empty_world [AcquireUpstream (JString ''docs''), WriteFile 0 1,
              ListenFileError 1, ListenUpstreamError 0])))) = Return () \<and>
   upstreams (snd (fatalIncomingError 0 (JsError ''ETIMEOUT'' ''again'')
         (snd (fatalIncomingError 0 (JsError ''ECANCELLED'' ''request aborted'')
           (urun empty_world [AcquireUpstream (JString ''docs''), WriteFile 0 1,
              ListenFileError 1, ListenUpstreamError 0])))))
     = upstreams (snd (fatalIncomingError 0 (JsError ''ECANCELLED'' ''request aborted'')
           (urun empty_world [AcquireUpstream (JString ''docs''), WriteFile 0 1,
              ListenFileError 1, ListenUpstreamError 0]))) \<and>
   raised (filestreams (snd (fatalIncomingError 0 (JsError ''ETIMEOUT'' ''again'')
         (snd (fatalIncomingError 0 (JsError ''ECANCELLED'' ''request aborted'')
           (urun empty_world [AcquireUpstream (JString ''docs''), WriteFile 0 1,
              ListenFileError 1, ListenUpstreamError 0]))))) 1)
     = [JsError ''ECANCELLED'' ''request aborted'', JsError ''ETIMEOUT'' ''again'']"
proof -
  let ?e = "JsError ''ECANCELLED'' ''request aborted''"
  let ?e' = "JsError ''ETIMEOUT'' ''again''"
  let ?w = "urun empty_world [AcquireUpstream (JString ''docs''), WriteFile 0 1,
              ListenFileError 1, ListenUpstreamError 0]"
  let ?w1 = "snd (fatalIncomingError 0 ?e ?w)"
  have r: "fst (fatalIncomingError 0 ?e ?w) = Return ()"
    by (simp add: world_eval)
  then have h: "fatalIncomingError 0 ?e ?w = (Return (), ?w1)"
    by (metis prod.collapse)
  have r2: "fst (fatalIncomingError 0 ?e' ?w1) = Return ()"
    by (simp add: world_eval)
  have t: "tracked ?w1 0 = [1]"
    by (simp add: world_eval tracked_def)
  have r1: "raised (filestreams ?w1 1) = [?e]"
    by (simp add: world_eval)
  show ?thesis
    using repeated_fatalIncomingError[OF h, of ?e'] r r2 t r1 by simp
qed

text \<open>
  Claim C7 as stated fails: the second call is not free of effects. With listeners that
  stay on the handle's stream and on the Upstream, the error is raised a second time on
  both.
\<close>

theorem second_fatalIncomingError_raises_again:
  "fst (fatalIncomingError 0 (JsError ''ECANCELLED'' ''request aborted'')
         (urun empty_world [AcquireUpstream (JString ''docs''), WriteFile 0 1,
            ListenFileError 1, ListenUpstreamError 0])) = Return () \<and>
   raised (filestreams (urun empty_world
      [AcquireUpstream (JString ''docs''), WriteFile 0 1, ListenFileError 1, ListenUpstreamError 0,
       FatalIncomingError 0 (JsError ''ECANCELLED'' ''request aborted'')]) 1)
     = [JsError ''ECANCELLED'' ''request aborted''] \<and>
   upstreamErrors (urun empty_world
      [AcquireUpstream (JString ''docs''), WriteFile 0 1, ListenFileError 1, ListenUpstreamError 0,
       FatalIncomingError 0 (JsError ''ECANCELLED'' ''request aborted'')]) 0
     = [JsError ''ECANCELLED'' ''request aborted''] \<and>
   raised (filestreams (urun empty_world
      [AcquireUpstream (JString ''docs''), WriteFile 0 1, ListenFileError 1, ListenUpstreamError 0,
       FatalIncomingError 0 (JsError ''ECANCELLED'' ''request aborted''),
       FatalIncomingError 0 (JsError ''ECANCELLED'' ''request aborted'')]) 1)
     = [JsError ''ECANCELLED'' ''request aborted'', JsError ''ECANCELLED'' ''request aborted''] \<and>
   upstreamErrors (urun empty_world
      [AcquireUpstream (JString ''docs''), WriteFile 0 1, ListenFileError 1, ListenUpstreamError 0,
       FatalIncomingError 0 (JsError ''ECANCELLED'' ''request aborted''),
       FatalIncomingError 0 (JsError ''ECANCELLED'' ''request aborted'')]) 0
     = [JsError ''ECANCELLED'' ''request aborted'', JsError ''ECANCELLED'' ''request aborted'']"
  by (simp add: world_eval)

subsection \<open>The \<open>error\<close> listener of \<open>writeFile\<close>\<close>

lemma writeFile_listens:
  "upstreams w u \<noteq> None \<Longrightarrow>
     readErrorOnce (filestreams (snd (writeFile u fs w)) fs) = Suc (readErrorOnce (filestreams w fs))"
  by (auto simp: writeFile_def Let_def upstream_emit_error_filestreams)

lemma first_error_handled:
  "upstreams w u \<noteq> None \<Longrightarrow>
     filestream_emit_error err (filestreams (snd (writeFile u fs w)) fs) \<noteq> None"
  using writeFile_listens[of w u fs] by (simp add: filestream_emit_error_def)

text \<open>
  Claim C10, at a file stream written to two Upstreams (the global one and the one of its
  field) with no consumer on either, when the request aborts and both Upstreams get
  \<open>fatalIncomingError\<close>. Each \<open>writeFile\<close> has put a \<open>once\<close> listener on the stream.
  The first error runs both listeners and removes them; the second error finds no
  listener and is thrown.
\<close>

theorem shared_filestream_second_error_unhandled:
  "readErrorOnce (filestreams (urun empty_world
      [AcquireUpstream (JString ''global''), AcquireUpstream (JString ''docs''),
       WriteFile 0 1, WriteFile 1 1]) 1) = 2 \<and>
   uncaughtExceptions (urun empty_world
      [AcquireUpstream (JString ''global''), AcquireUpstream (JString ''docs''),
       WriteFile 0 1, WriteFile 1 1,
       FatalIncomingError 0 (JsError ''ECANCELLED'' ''request aborted'')]) = [] \<and>
   readErrorOnce (filestreams (urun empty_world
      [AcquireUpstream (JString ''global''), AcquireUpstream (JString ''docs''),
       WriteFile 0 1, WriteFile 1 1,
       FatalIncomingError 0 (JsError ''ECANCELLED'' ''request aborted'')]) 1) = 0 \<and>
   uncaughtExceptions (urun empty_world
      [AcquireUpstream (JString ''global''), AcquireUpstream (JString ''docs''),
       WriteFile 0 1, WriteFile 1 1,
       FatalIncomingError 0 (JsError ''ECANCELLED'' ''request aborted''),
       FatalIncomingError 1 (JsError ''ECANCELLED'' ''request aborted'')])
     = [JsError ''ECANCELLED'' ''request aborted'']"
  by (simp add: world_eval)

subsection \<open>The first-consumer deadline\<close>

lemma read_keeps_deadline:
  assumes "upstreams w u = Some up"
  shows "\<exists>up'. upstreams (read u w) u = Some up' \<and>
           untilMaxBufferTimer up' = untilMaxBufferTimer up \<and> connectedTo up' = connectedTo up"
  using assms by (auto simp: read_def onNewDataRequested_def Let_def split: list.splits)

lemma maxBufferTimer_ignores_connected:
  assumes "upstreams w u = Some up" and "untilMaxBufferTimer up = Pending" and "connectedTo up = []"
  shows "untilMaxBufferTimer_fires u w =
           fatalIncomingError u (maxBufferTimeout up)
             (w\<lparr>upstreams := (upstreams w)(u \<mapsto> up\<lparr>untilMaxBufferTimer := Fired\<rparr>)\<rparr>)"
  using assms by (simp add: untilMaxBufferTimer_fires_def)

text \<open>
  Claim C2, at an Upstream made by \<open>acquireUpstream\<close> (deadlines 1500 ms and 20000 ms),
  in the order of the clock: a handle is emitted and the consumer pulls it; the
  first-file timer fires and finds a file; then the \<open>untilMaxBufferTimer\<close> fires. The
  pull has set \<open>_connected\<close>; the timer has stayed pending, and its callback tests
  \<open>connectedTo.length\<close>, which nothing ever changes: the Upstream gets
  \<open>fatalIncomingError\<close> with \<open>ETIMEOUT\<close> although a consumer has pulled.
\<close>

theorem pull_does_not_cancel_buffer_deadline:
  "delivered (urun empty_world
      [AcquireUpstream (JString ''docs''), WriteFile 0 1, Read 0]) 0 = [1] \<and>
   map_option connected (upstreams (urun empty_world
      [AcquireUpstream (JString ''docs''), WriteFile 0 1, Read 0]) 0) = Some True \<and>
   map_option connectedTo (upstreams (urun empty_world
      [AcquireUpstream (JString ''docs''), WriteFile 0 1, Read 0]) 0) = Some [] \<and>
   map_option untilMaxBufferTimer (upstreams (urun empty_world
      [AcquireUpstream (JString ''docs''), WriteFile 0 1, Read 0, FirstFileTimer 0]) 0)
     = Some Pending \<and>
   upstreamErrors (urun empty_world
      [AcquireUpstream (JString ''docs''), WriteFile 0 1, Read 0, FirstFileTimer 0]) 0 = [] \<and>
   map code (upstreamErrors (urun empty_world
      [AcquireUpstream (JString ''docs''), WriteFile 0 1, Read 0, FirstFileTimer 0,
       MaxBufferTimer 0]) 0) = [''ETIMEOUT''] \<and>
   map code (parserNext (urun empty_world
      [AcquireUpstream (JString ''docs''), WriteFile 0 1, Read 0, FirstFileTimer 0,
       MaxBufferTimer 0])) = [''ETIMEOUT''] \<and>
   statuses (urun empty_world
      [AcquireUpstream (JString ''docs''), WriteFile 0 1, Read 0, FirstFileTimer 0,
       MaxBufferTimer 0]) 0 = [Cancelled] \<and>
   ended_upstream (urun empty_world
      [AcquireUpstream (JString ''docs''), WriteFile 0 1, Read 0, FirstFileTimer 0,
       MaxBufferTimer 0]) 0"
  by (simp add: world_eval statuses_def ended_upstream_def)

subsection \<open>\<open>acquireUpstream\<close>\<close>

lemma find_last_added:
  "P n \<Longrightarrow> \<forall>a\<in>set xs. P a \<longrightarrow> a = n \<Longrightarrow> find P (xs @ [n]) = Some n"
  by (induction xs) auto

lemma acquireUpstream_again:
  "fst (acquireUpstream fn (snd (acquireUpstream fn w))) = fst (acquireUpstream fn w)"
proof (cases "find (\<lambda>a. case upstreams w a of None \<Rightarrow> False | Some up \<Rightarrow> fieldName up = fn)
             (parserUpstreams w)")
  case (Some a)
  then show ?thesis by (simp add: acquireUpstream_def)
next
  case None
  let ?n = "nextAddress w"
  let ?w1 = "snd (acquireUpstream fn w)"
  let ?P = "\<lambda>w a. case upstreams w a of None \<Rightarrow> False | Some up \<Rightarrow> fieldName up = fn"
  have f: "fst (acquireUpstream fn w) = ?n"
    using None by (simp add: acquireUpstream_def new_Upstream_def)
  have u: "upstreams ?w1 = (upstreams w)(?n \<mapsto> (Upstream no_opts)\<lparr>fieldName := fn\<rparr>)"
    and p: "parserUpstreams ?w1 = parserUpstreams w @ [?n]"
    using None by (simp_all add: acquireUpstream_def new_Upstream_def)
  have old: "\<forall>a\<in>set (parserUpstreams w). \<not> ?P w a"
    using None by (simp add: find_None_iff)
  have new: "?P ?w1 a \<longleftrightarrow> a = ?n \<or> ?P w a" for a
    using u by (auto split: option.splits)
  have "find (?P ?w1) (parserUpstreams w @ [?n]) = Some ?n"
  proof (rule find_last_added)
    show "?P ?w1 ?n" using new by simp
    show "\<forall>a\<in>set (parserUpstreams w). ?P ?w1 a \<longrightarrow> a = ?n"
      using old new by blast
  qed
  then have "find (?P ?w1) (parserUpstreams ?w1) = Some ?n"
    using p by simp
  then show ?thesis
    using f by (simp add: acquireUpstream_def)
qed

subsection \<open>\<open>upload\<close>\<close>

lemma upstream_emit_error_receivers:
  "receivers (snd (upstream_emit_error u err w)) = receivers w"
  by (simp add: upstream_emit_error_def parser_on_error_def Let_def)

lemma fatalIncomingError_receivers:
  "receivers (snd (fatalIncomingError u err w)) = receivers w"
  by (simp add: fatalIncomingError_def upstream_emit_error_receivers Let_def
      split: option.splits prod.splits result.splits)

lemma writeFile_receivers: "receivers (snd (writeFile u fs w)) = receivers w"
  by (simp add: writeFile_def upstream_emit_error_receivers Let_def split: option.splits)

lemma escaped_receivers: "receivers (escaped r) = receivers (snd r)"
  by (cases r) (simp add: escaped_def split: result.splits)

lemma ustep_receivers:
  "\<not> reports rcv e \<Longrightarrow> receivers (ustep w e) rcv = receivers w rcv"
proof (cases e)
  case (AcquireUpstream fn)
  then show ?thesis
    by (simp add: acquireUpstream_def new_Upstream_def split: option.splits)
next
  case (WriteFile u fs)
  then show ?thesis by (simp add: escaped_receivers writeFile_receivers)
next
  case (NoMoreFiles u)
  then show ?thesis by (simp split: option.splits)
next
  case (FatalIncomingError u err)
  then show ?thesis by (simp add: escaped_receivers fatalIncomingError_receivers)
next
  case (FirstFileTimer u)
  have "receivers (snd (fatalIncomingError u x w')) = receivers w'" for x w'
    by (rule fatalIncomingError_receivers)
  then show ?thesis using FirstFileTimer
    by (simp add: escaped_receivers untilFirstFileTimer_fires_def Let_def split: option.splits)
next
  case (MaxBufferTimer u)
  have "receivers (snd (fatalIncomingError u x w')) = receivers w'" for x w'
    by (rule fatalIncomingError_receivers)
  then show ?thesis using MaxBufferTimer
    by (simp add: escaped_receivers untilMaxBufferTimer_fires_def Let_def split: option.splits)
next
  case (Read u)
  then show ?thesis by (simp add: read_def Let_def split: option.splits list.splits)
next
  case (Upload u r cb)
  assume "\<not> reports rcv e"
  then show ?thesis using Upload
    by (simp add: escaped_receivers upload_def Let_def split: option.splits)
next
  case (ReceiverFinish r fls)
  assume "\<not> reports rcv e"
  then show ?thesis using ReceiverFinish by (simp add: receiver_finish_def Let_def)
next
  case (ReceiverError r err fls)
  assume "\<not> reports rcv e"
  then show ?thesis using ReceiverError
    by (simp add: escaped_receivers receiver_error_def Let_def)
qed simp_all

lemma urun_receivers:
  "quiet rcv es \<Longrightarrow> receivers (urun w es) rcv = receivers w rcv"
proof (induction es arbitrary: w)
  case Nil
  then show ?case by (simp add: urun_def)
next
  case (Cons e es)
  have q: "\<not> reports rcv e" "quiet rcv es"
    using Cons.prems by (simp_all split: if_splits)
  have "receivers (urun (ustep w e) es) rcv = receivers (ustep w e) rcv"
    using Cons.IH[OF q(2)] .
  then show ?case using ustep_receivers[OF q(1), of w] by (simp add: urun_def)
qed

text \<open>
  Claim C9. After \<open>upload(receiver, cb)\<close> on an Upstream, with a receiver that had no
  listener of \<open>upload\<close> yet, and whatever else happens in between: when the receiver
  emits \<open>finish\<close>, \<open>cb\<close> is called with no error and with the files the receiver
  supplies if they are an array, the empty array otherwise; when the receiver emits
  \<open>error\<close> for the first time, \<open>cb\<close> is called with that error.
\<close>

theorem upload_callback:
  assumes "upstreams w u \<noteq> None" and "receivers w rcv = fresh_receiver" and "quiet rcv es"
  shows "callbacks (urun w (Upload u rcv cb # es @ [ReceiverFinish rcv fls]))
           = callbacks (urun w (Upload u rcv cb # es)) @
               [(cb, None, Some (if isArray fls then fls else JArray []))] \<and>
         callbacks (urun w (Upload u rcv cb # es @ [ReceiverError rcv err fls]))
           = callbacks (urun w (Upload u rcv cb # es)) @ [(cb, Some err, None)]"
proof -
  let ?w1 = "ustep w (Upload u rcv cb)"
  let ?w2 = "urun ?w1 es"
  have r1: "receivers ?w1 rcv = \<lparr>allFilesUploaded = [cb], unableToUpload = [cb], ownErrorListeners = 0\<rparr>"
    using assms(1,2) by (auto simp: upload_def escaped_def fresh_receiver_def Let_def)
  have r2: "receivers ?w2 rcv = \<lparr>allFilesUploaded = [cb], unableToUpload = [cb], ownErrorListeners = 0\<rparr>"
    using urun_receivers[OF assms(3), of ?w1] r1 by simp
  have a: "urun w (Upload u rcv cb # es @ [e]) = ustep ?w2 e" for e
    by (simp add: urun_def)
  have b: "urun w (Upload u rcv cb # es) = ?w2"
    by (simp add: urun_def)
  show ?thesis
    unfolding a b using r2
    by (simp add: receiver_finish_def receiver_error_def escaped_def ensure_array_def Let_def)
qed

theorem upload_callback_witness:
  "upstreams (urun empty_world [AcquireUpstream (JString ''avatar'')]) 0 \<noteq> None \<and>
   receivers (urun empty_world [AcquireUpstream (JString ''avatar'')]) 5 = fresh_receiver \<and>
   quiet 5 [WriteFile 0 1, Read 0] \<and>
   callbacks (urun (urun empty_world [AcquireUpstream (JString ''avatar'')])
       (Upload 0 5 7 # [WriteFile 0 1, Read 0] @ [ReceiverFinish 5 JUndefined]))
     = callbacks (urun (urun empty_world [AcquireUpstream (JString ''avatar'')])
         (Upload 0 5 7 # [WriteFile 0 1, Read 0])) @ [(7, None, Some (JArray []))]"
proof -
  let ?w = "urun empty_world [AcquireUpstream (JString ''avatar'')]"
  have h1: "upstreams ?w 0 \<noteq> None"
    by (simp add: world_eval)
  have h2: "receivers ?w 5 = fresh_receiver"
    by (simp add: world_eval)
  have h3: "quiet 5 [WriteFile 0 1, Read 0]"
    by simp
  show ?thesis
    using upload_callback[OF h1 h2 h3, of 7 JUndefined] h1 h2 h3 by simp
qed

end
